theory Spec2Isabelle
  imports Complex_Main
begin

section \<open>Errors raised by the notebooks\<close>

text \<open>
  Every Python exception that the modelled cells can raise is a value of this type.
  \<open>Exception\<close> is the bare exception that \<open>preprocessor\<close> raises itself; its
  argument is the message (written here without the inner double quotes).
  \<open>OperationalError\<close> is sqlite's error for an insert into a column the table
  does not have. \<open>TrackerError\<close> carries whatever the experiment tracker's client
  or artifact loader raised.
\<close>

datatype error =
    KeyError string
  | IndexError
  | ValueError
  | Exception string
  | OperationalError string
  | TrackerError string

section \<open>Text preprocessing (02\_mlflow\_management, function \<open>preprocessor\<close>)\<close>

subsection \<open>Character classes\<close>

text \<open>
  A Python character is modelled as one \<open>char\<close>, so the model covers the code points
  below 256. \<open>is_alnum\<close> is the class \<open>[a-zA-Z0-9]\<close>; \<open>is_space\<close> is \<open>\s\<close> of a
  Python 3 string pattern restricted to these code points.
\<close>

definition is_alnum :: "char \<Rightarrow> bool" where
  "is_alnum c =
     (let n = (of_char c :: nat)
      in (48 \<le> n \<and> n \<le> 57) \<or> (65 \<le> n \<and> n \<le> 90) \<or> (97 \<le> n \<and> n \<le> 122))"

definition is_space :: "char \<Rightarrow> bool" where
  "is_space c =
     (let n = (of_char c :: nat)
      in (9 \<le> n \<and> n \<le> 13) \<or> (28 \<le> n \<and> n \<le> 32) \<or> n = 133 \<or> n = 160)"

definition lower_char :: "char \<Rightarrow> char" where
  "lower_char c =
     (let n = (of_char c :: nat)
      in if (65 \<le> n \<and> n \<le> 90) \<or> (192 \<le> n \<and> n \<le> 222 \<and> n \<noteq> 215)
         then char_of (n + 32) else c)"

subsection \<open>The three regular-expression substitutions\<close>

text \<open>
  \<open>re.sub(r'<[^>]+>', '', text)\<close>. Scanning from the left, a match starts at a
  \<open><\<close> that is followed by a non-empty maximal run of characters other than \<open>>\<close>
  and then a \<open>>\<close>; the greedy run cannot be shortened, because every character
  inside it differs from \<open>>\<close>. A match is deleted and the scan resumes behind it;
  any other character is kept.
\<close>

function sub_tags :: "string \<Rightarrow> string" where
  "sub_tags [] = []"
| "sub_tags (c # cs) =
     (if c = CHR ''<''
         \<and> takeWhile (\<lambda>x. x \<noteq> CHR ''>'') cs \<noteq> []
         \<and> dropWhile (\<lambda>x. x \<noteq> CHR ''>'') cs \<noteq> []
      then sub_tags (tl (dropWhile (\<lambda>x. x \<noteq> CHR ''>'') cs))
      else c # sub_tags cs)"
  by pat_completeness auto
termination
proof (relation "measure length")
  show "wf (measure length)" by simp
next
  fix c :: char and cs :: string
  have "length (tl (dropWhile (\<lambda>x. x \<noteq> CHR ''>'') cs)) \<le> length cs"
    using length_dropWhile_le [of "\<lambda>x. x \<noteq> CHR ''>''" cs] by simp
  then show "(tl (dropWhile (\<lambda>x. x \<noteq> CHR ''>'') cs), c # cs) \<in> measure length"
    by simp
next
  fix c :: char and cs :: string
  show "(cs, c # cs) \<in> measure length" by simp
qed

text \<open>
  \<open>re.sub("[C]+", repl, text)\<close> for a character class \<open>C\<close>: every maximal run of
  characters of the class is replaced by \<open>repl\<close>. The two calls of the source are
  \<open>sub_runs (\<lambda>c. \<not> is_alnum c) '' ''\<close> and \<open>sub_runs is_space '' ''\<close>.
\<close>

function sub_runs :: "(char \<Rightarrow> bool) \<Rightarrow> string \<Rightarrow> string \<Rightarrow> string" where
  "sub_runs P repl [] = []"
| "sub_runs P repl (c # cs) =
     (if P c then repl @ sub_runs P repl (dropWhile P cs)
      else c # sub_runs P repl cs)"
  by pat_completeness auto
termination
proof (relation "measure (\<lambda>(P, repl, text). length text)")
  show "wf (measure (\<lambda>(P :: char \<Rightarrow> bool, repl :: string, text :: string). length text))"
    by simp
next
  fix P :: "char \<Rightarrow> bool" and repl :: string and c :: char and cs :: string
  show "((P, repl, dropWhile P cs), (P, repl, c # cs))
          \<in> measure (\<lambda>(P, repl, text). length text)"
    using length_dropWhile_le [of P cs] by simp
next
  fix P :: "char \<Rightarrow> bool" and repl :: string and c :: char and cs :: string
  show "((P, repl, cs), (P, repl, c # cs)) \<in> measure (\<lambda>(P, repl, text). length text)"
    by simp
qed

text \<open>\<open>sep.join(parts)\<close>.\<close>

fun join :: "string \<Rightarrow> string list \<Rightarrow> string" where
  "join sep [] = []"
| "join sep [x] = x"
| "join sep (x # y # ys) = x @ sep @ join sep (y # ys)"

subsection \<open>The NLTK functions the preprocessor calls\<close>

text \<open>
  NLTK is a library outside the repository; the functions used by the source are
  the fields of a record that every definition below takes as a parameter.
  \<open>stem\<close> is \<open>PorterStemmer().stem\<close>, \<open>lemmatize\<close> is
  \<open>WordNetLemmatizer().lemmatize\<close>, \<open>pos_tag\<close> is \<open>nltk.pos_tag\<close> (one
  (token, tag) pair per token).
\<close>

datatype wordnet_pos = ADJ | NOUN | VERB | ADV

record nltk =
  word_tokenize :: "string \<Rightarrow> string list"
  stem :: "string \<Rightarrow> string"
  pos_tag :: "string list \<Rightarrow> (string \<times> string) list"
  lemmatize :: "string \<Rightarrow> wordnet_pos \<Rightarrow> string"

type_synonym config = "string \<rightharpoonup> string"

definition tag_dict :: "string \<rightharpoonup> wordnet_pos" where
  "tag_dict = [''j'' \<mapsto> ADJ, ''n'' \<mapsto> NOUN, ''v'' \<mapsto> VERB, ''r'' \<mapsto> ADV]"

text \<open>
  \<open>pos_tagger(word)\<close>: \<open>nltk.pos_tag([word])[0][1][0].lower()\<close>, looked up in
  \<open>tag_dict\<close> with default \<open>wordnet.NOUN\<close>. Both \<open>[0]\<close> on a sequence raise
  IndexError when it is empty.
\<close>

definition pos_tagger :: "nltk \<Rightarrow> string \<Rightarrow> error + wordnet_pos" where
  "pos_tagger tk word =
     (case pos_tag tk [word] of
        [] \<Rightarrow> Inl IndexError
      | (w, t) # _ \<Rightarrow>
          (case t of
             [] \<Rightarrow> Inl IndexError
           | c # _ \<Rightarrow>
               (let tag = [lower_char c]
                in Inr (case tag_dict tag of None \<Rightarrow> NOUN | Some p \<Rightarrow> p))))"

text \<open>
  The list comprehension \<open>[lemmatizer.lemmatize(w, pos_tagger(w)) for w in ...]\<close>,
  stopping at the first token whose tagging raises.
\<close>

fun lemmatize_all :: "nltk \<Rightarrow> string list \<Rightarrow> error + string list" where
  "lemmatize_all tk [] = Inr []"
| "lemmatize_all tk (w # ws) =
     (case pos_tagger tk w of
        Inl e \<Rightarrow> Inl e
      | Inr p \<Rightarrow>
          (case lemmatize_all tk ws of
             Inl e \<Rightarrow> Inl e
           | Inr ls \<Rightarrow> Inr (lemmatize tk w p # ls)))"

subsection \<open>The loop body and the loop\<close>

definition clean_text :: "string \<Rightarrow> string" where
  "clean_text text =
     sub_runs is_space '' '' (sub_runs (\<lambda>c. \<not> is_alnum c) '' '' (sub_tags text))"

text \<open>
  One iteration of \<open>for text in corpus\<close>, up to the value appended to
  \<open>preprocessed_corpus\<close>. \<open>CONFIG["NORMALIZER"]\<close> is read after the three
  substitutions and raises KeyError when the key is absent.
\<close>

definition normalize_text :: "nltk \<Rightarrow> config \<Rightarrow> string \<Rightarrow> error + string" where
  "normalize_text tk CONFIG text =
     (let text' = clean_text text
      in case CONFIG ''NORMALIZER'' of
           None \<Rightarrow> Inl (KeyError ''NORMALIZER'')
         | Some normalizer \<Rightarrow>
             if normalizer = ''stem''
             then Inr (join '' '' (map (stem tk) (word_tokenize tk text')))
             else if normalizer = ''lemma''
             then (case lemmatize_all tk (word_tokenize tk text') of
                     Inl e \<Rightarrow> Inl e
                   | Inr ws \<Rightarrow> Inr (join '' '' ws))
             else Inl (Exception ''Please enter CONFIG[NORMALIZER] as stem or lemma''))"

fun preprocess_loop :: "nltk \<Rightarrow> config \<Rightarrow> string list \<Rightarrow> string list \<Rightarrow> error + string list" where
  "preprocess_loop tk CONFIG [] preprocessed_corpus = Inr preprocessed_corpus"
| "preprocess_loop tk CONFIG (text # corpus) preprocessed_corpus =
     (case normalize_text tk CONFIG text of
        Inl e \<Rightarrow> Inl e
      | Inr t \<Rightarrow> preprocess_loop tk CONFIG corpus (preprocessed_corpus @ [t]))"

text \<open>
  The argument of \<open>preprocessor\<close> is a string or a list of strings; its result, when
  it returns, is the Python value \<open>preprocessed_corpus\<close>.
\<close>

datatype pyval = Str string | Lst "string list"

definition texts_of :: "pyval \<Rightarrow> string list" where
  "texts_of corpus = (case corpus of Str s \<Rightarrow> [s] | Lst xs \<Rightarrow> xs)"

definition preprocessor :: "nltk \<Rightarrow> config \<Rightarrow> pyval \<Rightarrow> error + pyval" where
  "preprocessor tk CONFIG corpus =
     (case preprocess_loop tk CONFIG (texts_of corpus) [] of
        Inl e \<Rightarrow> Inl e
      | Inr preprocessed_corpus \<Rightarrow> Inr (Lst preprocessed_corpus))"

subsection \<open>The steps as the specification words them\<close>

text \<open>
  ``Collapse runs of characters of a class to single separators'': a scan that
  remembers whether it is inside a run and writes one space where a run begins.
\<close>

fun collapse_runs :: "(char \<Rightarrow> bool) \<Rightarrow> bool \<Rightarrow> string \<Rightarrow> string" where
  "collapse_runs P in_run [] = []"
| "collapse_runs P in_run (c # cs) =
     (if P c then (if in_run then collapse_runs P True cs
                   else CHR '' '' # collapse_runs P True cs)
      else c # collapse_runs P False cs)"

text \<open>
  A string in which every character of a class is a space that no character of the
  class follows: the runs of the class are already collapsed.
\<close>

fun settled :: "(char \<Rightarrow> bool) \<Rightarrow> string \<Rightarrow> bool" where
  "settled P [] = True"
| "settled P (c # cs) =
     ((P c \<longrightarrow> c = CHR '' '' \<and> (case cs of [] \<Rightarrow> True | d # _ \<Rightarrow> \<not> P d))
      \<and> settled P cs)"

text \<open>
  A markup tag begins at the head of a string: \<open><\<close>, at least one character
  other than \<open>>\<close>, then \<open>>\<close>. \<open>has_tag\<close>: a tag begins somewhere in the string.
\<close>

definition tag_at :: "string \<Rightarrow> bool" where
  "tag_at s =
     (case s of
        [] \<Rightarrow> False
      | c # cs \<Rightarrow> c = CHR ''<''
                 \<and> takeWhile (\<lambda>x. x \<noteq> CHR ''>'') cs \<noteq> []
                 \<and> dropWhile (\<lambda>x. x \<noteq> CHR ''>'') cs \<noteq> [])"

fun has_tag :: "string \<Rightarrow> bool" where
  "has_tag [] = False"
| "has_tag (c # cs) = (tag_at (c # cs) \<or> has_tag cs)"

text \<open>The part of speech for the first letter of a tag, noun unless recognised.\<close>

definition pos_of_letter :: "char \<Rightarrow> wordnet_pos" where
  "pos_of_letter c =
     (if lower_char c = CHR ''j'' then ADJ
      else if lower_char c = CHR ''v'' then VERB
      else if lower_char c = CHR ''r'' then ADV
      else NOUN)"

text \<open>The first letter of the tag that \<open>nltk.pos_tag\<close> gives a single token.\<close>

definition first_tag_letter :: "nltk \<Rightarrow> string \<Rightarrow> char option" where
  "first_tag_letter tk w =
     (case pos_tag tk [w] of
        [] \<Rightarrow> None
      | (x, t) # _ \<Rightarrow> (case t of [] \<Rightarrow> None | c # _ \<Rightarrow> Some c))"

text \<open>The characters of a cleaned text: the class \<open>[a-zA-Z0-9]\<close> and the space.\<close>

definition clean_char :: "char \<Rightarrow> bool" where
  "clean_char c = (is_alnum c \<or> c = CHR '' '')"



subsection \<open>A small toolkit for closed examples\<close>

text \<open>
  A stand-in for NLTK that instantiates the parameter in closed examples: tokens
  are the space-separated words, the stemmer removes one final \<open>s\<close>, a token is
  tagged \<open>JJ\<close>, \<open>CD\<close> or \<open>NN\<close> and the lemmatizer returns its word.
\<close>

fun split_spaces :: "string \<Rightarrow> string \<Rightarrow> string list" where
  "split_spaces w [] = (if w = [] then [] else [w])"
| "split_spaces w (c # cs) =
     (if c = CHR '' ''
      then (if w = [] then split_spaces [] cs else w # split_spaces [] cs)
      else split_spaces (w @ [c]) cs)"

definition strip_s :: "string \<Rightarrow> string" where
  "strip_s w = (if 1 < length w \<and> last w = CHR ''s'' then butlast w else w)"

definition toy_tag :: "string \<Rightarrow> string \<times> string" where
  "toy_tag w = (w, if w = ''good'' then ''JJ'' else if w = ''10'' then ''CD'' else ''NN'')"

definition toy_nltk :: nltk where
  "toy_nltk =
     \<lparr>word_tokenize = split_spaces [],
      stem = strip_s,
      pos_tag = map toy_tag,
      lemmatize = (\<lambda>w p. w)\<rparr>"

definition stem_config :: config where
  "stem_config = [''NORMALIZER'' \<mapsto> ''stem'']"

definition lemma_config :: config where
  "lemma_config = [''NORMALIZER'' \<mapsto> ''lemma'']"

definition other_config :: config where
  "other_config = [''NORMALIZER'' \<mapsto> ''lower'']"

section \<open>Experiment tracking (02\_mlflow\_management)\<close>

text \<open>
  A run as the tracker returns it: \<open>run.info.run_id\<close>, \<open>run.info.start_time\<close>,
  \<open>run.data.tags\<close> and \<open>run.data.metrics\<close>.
\<close>

record run =
  run_id :: string
  start_time :: int
  tags :: "string \<rightharpoonup> string"
  metrics :: "string \<rightharpoonup> real"

datatype view_type = ACTIVE_ONLY | DELETED_ONLY | ALL

text \<open>
  The MLflow client and \<open>mlflow.sklearn.load_model\<close> belong to a library outside
  the repository and are parameters: \<open>search_runs\<close> takes the experiment ids, the
  filter string, the view type, \<open>max_results\<close> and the \<open>order_by\<close> list; each
  function returns what the library returns or the error it raises.
\<close>

record 'model mlflow =
  search_runs :: "string \<Rightarrow> string \<Rightarrow> view_type \<Rightarrow> int \<Rightarrow> string list \<Rightarrow> error + run list"
  get_run :: "string \<Rightarrow> error + run"
  sklearn_load_model :: "string \<Rightarrow> error + 'model"

text \<open>\<open>str(n)\<close> for an integer.\<close>

definition digit :: "nat \<Rightarrow> char" where
  "digit d = ''0123456789'' ! d"

function str_nat :: "nat \<Rightarrow> string" where
  "str_nat n = (if n < 10 then [digit n] else str_nat (n div 10) @ [digit (n mod 10)])"
  by pat_completeness auto
termination
  by (relation "measure (\<lambda>n. n)") auto

definition str :: "int \<Rightarrow> string" where
  "str i = (if i < 0 then CHR ''-'' # str_nat (nat (- i)) else str_nat (nat i))"

text \<open>
  The loop of \<open>get_top_runs\<close>: each run is printed, which reads
  \<open>run.data.tags['model_type']\<close> and raises KeyError when the tag is absent, and
  its id is appended to \<open>run_ids\<close>.
\<close>

fun collect_run_ids :: "run list \<Rightarrow> string list \<Rightarrow> error + string list" where
  "collect_run_ids [] run_ids = Inr run_ids"
| "collect_run_ids (r # runs) run_ids =
     (case tags r ''model_type'' of
        None \<Rightarrow> Inl (KeyError ''model_type'')
      | Some model_type \<Rightarrow> collect_run_ids runs (run_ids @ [run_id r]))"

definition get_top_runs :: "'model mlflow \<Rightarrow> int \<Rightarrow> int \<Rightarrow> error + string list" where
  "get_top_runs client experiment_id max_results =
     (case search_runs client (str experiment_id) [] ACTIVE_ONLY max_results
             [''metrics.accuracy DESC''] of
        Inl e \<Rightarrow> Inl e
      | Inr runs \<Rightarrow> collect_run_ids runs [])"

definition artifact_path :: "int \<Rightarrow> string \<Rightarrow> string" where
  "artifact_path experiment_id rid =
     ''mlflow/mlruns/'' @ str experiment_id @ ''/'' @ rid @ ''/artifacts''"

text \<open>
  \<open>load_model(run_id, experiment_id)\<close>: the print statement fetches the run and
  reads its \<open>model_type\<close> tag, then the model is loaded from the run's artifact
  directory. The function has no exception handler.
\<close>

definition load_model :: "'model mlflow \<Rightarrow> string \<Rightarrow> int \<Rightarrow> error + 'model" where
  "load_model client rid experiment_id =
     (case get_run client rid of
        Inl e \<Rightarrow> Inl e
      | Inr r \<Rightarrow>
          (case tags r ''model_type'' of
             None \<Rightarrow> Inl (KeyError ''model_type'')
           | Some model_type \<Rightarrow> sklearn_load_model client (artifact_path experiment_id rid)))"

text \<open>A tracker with two runs, one of which has lost its artifact.\<close>

definition toy_run :: "string \<Rightarrow> int \<Rightarrow> string \<Rightarrow> real \<Rightarrow> run" where
  "toy_run rid t model_type acc =
     \<lparr>run_id = rid, start_time = t, tags = [''model_type'' \<mapsto> model_type],
      metrics = [''accuracy'' \<mapsto> acc]\<rparr>"

definition toy_get_run :: "string \<Rightarrow> error + run" where
  "toy_get_run rid =
     (if rid = ''r1'' then Inr (toy_run ''r1'' 10 ''Naive Bayes'' (81 / 100))
      else if rid = ''r2'' then Inr (toy_run ''r2'' 20 ''SGDClassifier'' (80 / 100))
      else Inl (TrackerError ''RESOURCE_DOES_NOT_EXIST''))"

definition toy_load :: "string \<Rightarrow> error + string" where
  "toy_load path =
     (if path = ''mlflow/mlruns/1/r1/artifacts'' then Inr ''fitted Naive Bayes''
      else Inl (TrackerError ''No such file or directory''))"

definition toy_search ::
    "string \<Rightarrow> string \<Rightarrow> view_type \<Rightarrow> int \<Rightarrow> string list \<Rightarrow> error + run list" where
  "toy_search experiment_ids filter_string view max_results order_by =
     Inr (take (nat max_results)
            [toy_run ''r1'' 10 ''Naive Bayes'' (81 / 100),
             toy_run ''r2'' 20 ''SGDClassifier'' (80 / 100)])"

definition toy_client :: "string mlflow" where
  "toy_client =
     \<lparr>search_runs = toy_search, get_run = toy_get_run, sklearn_load_model = toy_load\<rparr>"

section \<open>Corpus partitioning (the IMDB notebook)\<close>

subsection \<open>Data frames\<close>

text \<open>
  A pandas DataFrame is its list of column names and its rows; a row is its index
  label together with its cells in column order.
\<close>

datatype cell = IntC int | TextC string | NullC

record frame =
  columns :: "string list"
  rws :: "(int \<times> cell list) list"

definition index :: "frame \<Rightarrow> int list" where
  "index df = map fst (rws df)"

text \<open>
  \<open>pd.read_csv\<close> on the corpus file, given as its (review, sentiment) lines: the
  two columns of the file under a RangeIndex.
\<close>

definition read_csv :: "(string \<times> string) list \<Rightarrow> frame" where
  "read_csv lines =
     \<lparr>columns = [''review'', ''sentiment''],
      rws = zip (map int [0 ..< length lines]) (map (\<lambda>(r, s). [TextC r, TextC s]) lines)\<rparr>"

text \<open>
  \<open>df.sample(n, random_state=158)\<close>. The generator seeded with 158 is the
  parameter \<open>choice\<close>: \<open>choice pop n\<close> is the list of row positions it draws from
  a population of \<open>pop\<close> rows. A request for more rows than the frame has raises
  ValueError; taking a position outside the frame raises IndexError.
\<close>

definition sample :: "(nat \<Rightarrow> nat \<Rightarrow> nat list) \<Rightarrow> nat \<Rightarrow> frame \<Rightarrow> error + frame" where
  "sample choice n df =
     (let pop = length (rws df)
      in if pop < n then Inl ValueError
         else let locs = choice pop n
              in if \<exists>i \<in> set locs. pop \<le> i then Inl IndexError
                 else Inr (df\<lparr>rws := map (\<lambda>i. rws df ! i) locs\<rparr>))"

text \<open>\<open>df.drop(labels)\<close>: a label that is not in the index raises KeyError.\<close>

definition drop_index :: "int list \<Rightarrow> frame \<Rightarrow> error + frame" where
  "drop_index labels df =
     (if \<exists>l \<in> set labels. l \<notin> set (index df) then Inl (KeyError ''not found in axis'')
      else Inr (df\<lparr>rws := filter (\<lambda>r. fst r \<notin> set labels) (rws df)\<rparr>))"

text \<open>\<open>df.drop(columns=name)\<close>.\<close>

definition drop_columns :: "string \<Rightarrow> frame \<Rightarrow> error + frame" where
  "drop_columns name df =
     (if name \<notin> set (columns df) then Inl (KeyError name)
      else Inr \<lparr>columns = filter (\<lambda>c. c \<noteq> name) (columns df),
                rws = map (\<lambda>(i, cells).
                        (i, map snd (filter (\<lambda>(c, v). c \<noteq> name) (zip (columns df) cells))))
                      (rws df)\<rparr>)"

text \<open>
  \<open>df.reset_index()\<close>: the index becomes the first column, named \<open>index\<close> (or
  \<open>level_0\<close> when a column \<open>index\<close> exists; ValueError when that exists too), and
  the rows are renumbered.
\<close>

definition reset_index :: "frame \<Rightarrow> error + frame" where
  "reset_index df =
     (let name = (if ''index'' \<in> set (columns df) then ''level_0'' else ''index'')
      in if name \<in> set (columns df) then Inl ValueError
         else Inr \<lparr>columns = name # columns df,
                   rws = zip (map int [0 ..< length (rws df)])
                             (map (\<lambda>(i, cells). IntC i # cells) (rws df))\<rparr>)"

text \<open>\<open>df.rename(columns={old: new})\<close>.\<close>

definition rename :: "string \<Rightarrow> string \<Rightarrow> frame \<Rightarrow> frame" where
  "rename old new df = df\<lparr>columns := map (\<lambda>c. if c = old then new else c) (columns df)\<rparr>"

subsection \<open>The sqlite database\<close>

record table =
  tcolumns :: "string list"
  trows :: "cell list list"

type_synonym database = "string \<rightharpoonup> table"

text \<open>\<open>CREATE TABLE IF NOT EXISTS name (cols)\<close>.\<close>

definition create_table :: "string \<Rightarrow> string list \<Rightarrow> database \<Rightarrow> database" where
  "create_table name cols db =
     (case db name of
        None \<Rightarrow> db(name \<mapsto> \<lparr>tcolumns = cols, trows = []\<rparr>)
      | Some t \<Rightarrow> db)"

text \<open>
  \<open>df.to_sql(name, conn, if_exists='append', index=False)\<close>: the frame's columns
  are inserted by name into the table (created from the frame when absent); a table
  column the frame lacks is NULL, a frame column the table lacks is an error.
\<close>

definition to_sql :: "string \<Rightarrow> frame \<Rightarrow> database \<Rightarrow> error + database" where
  "to_sql name df db =
     (case db name of
        None \<Rightarrow> Inr (db(name \<mapsto> \<lparr>tcolumns = columns df, trows = map snd (rws df)\<rparr>))
      | Some t \<Rightarrow>
          if \<exists>c \<in> set (columns df). c \<notin> set (tcolumns t)
          then Inl (OperationalError name)
          else Inr (db(name \<mapsto> t\<lparr>trows := trows t @
                 map (\<lambda>(i, cells).
                        map (\<lambda>c. case map_of (zip (columns df) cells) c of
                                    None \<Rightarrow> NullC | Some v \<Rightarrow> v)
                            (tcolumns t))
                     (rws df)\<rparr>)))"

text \<open>The value a table row holds in a column.\<close>

definition field :: "table \<Rightarrow> string \<Rightarrow> cell list \<Rightarrow> cell option" where
  "field t c row = map_of (zip (tcolumns t) row) c"

definition row_id :: "table \<Rightarrow> cell list \<Rightarrow> int list" where
  "row_id t row = (case field t ''id'' row of Some (IntC i) \<Rightarrow> [i] | _ \<Rightarrow> [])"

definition table_ids :: "database \<Rightarrow> string \<Rightarrow> int set" where
  "table_ids db name =
     (case db name of
        None \<Rightarrow> {}
      | Some t \<Rightarrow> set (concat (map (row_id t) (trows t))))"



subsection \<open>The notebook\<close>

text \<open>
  \<open>df.reset_index().rename(columns={"index": "id"}).to_sql(name, ...)\<close>, the
  export used for all three sets.
\<close>

definition export :: "string \<Rightarrow> frame \<Rightarrow> database \<Rightarrow> error + database" where
  "export name df db =
     (case reset_index df of
        Inl e \<Rightarrow> Inl e
      | Inr df' \<Rightarrow> to_sql name (rename ''index'' ''id'' df') db)"

record partition =
  training_set :: frame
  validation_set :: frame
  unlabeled_pool :: frame
  conn :: database

text \<open>
  The cells of the notebook in execution order, from the three
  \<open>CREATE TABLE\<close> statements to the export of the unlabeled pool. The sizes of the
  two samples are parameters; the notebook's values are 5000 and 2000. The printing
  cells and the CSV files written beside the tables are left out.
\<close>

definition partition_corpus ::
    "(nat \<Rightarrow> nat \<Rightarrow> nat list) \<Rightarrow> nat \<Rightarrow> nat \<Rightarrow> (string \<times> string) list \<Rightarrow> database
       \<Rightarrow> error + partition" where
  "partition_corpus choice n_train n_val lines db0 =
     (let db1 = create_table ''training'' [''id'', ''review'', ''sentiment''] db0;
          db2 = create_table ''validation'' [''id'', ''review'', ''sentiment''] db1;
          db3 = create_table ''unlabeled_pool'' [''id'', ''review''] db2;
          df = read_csv lines
      in case sample choice n_train df of Inl e \<Rightarrow> Inl e | Inr training \<Rightarrow>
         case drop_index (index training) df of Inl e \<Rightarrow> Inl e | Inr df1 \<Rightarrow>
         case export ''training'' training db3 of Inl e \<Rightarrow> Inl e | Inr db4 \<Rightarrow>
         case sample choice n_val df1 of Inl e \<Rightarrow> Inl e | Inr validation \<Rightarrow>
         case drop_index (index validation) df1 of Inl e \<Rightarrow> Inl e | Inr df2 \<Rightarrow>
         case export ''validation'' validation db4 of Inl e \<Rightarrow> Inl e | Inr db5 \<Rightarrow>
         case drop_columns ''sentiment'' df2 of Inl e \<Rightarrow> Inl e | Inr unlabeled \<Rightarrow>
         case export ''unlabeled_pool'' unlabeled db5 of Inl e \<Rightarrow> Inl e | Inr db6 \<Rightarrow>
         Inr \<lparr>training_set = training, validation_set = validation,
              unlabeled_pool = unlabeled, conn = db6\<rparr>)"

definition imdb_partition ::
    "(nat \<Rightarrow> nat \<Rightarrow> nat list) \<Rightarrow> (string \<times> string) list \<Rightarrow> database \<Rightarrow> error + partition" where
  "imdb_partition choice lines db0 = partition_corpus choice 5000 2000 lines db0"

text \<open>
  A generator that draws the last \<open>n\<close> positions, highest first; it instantiates
  \<open>choice\<close> in the closed examples.
\<close>

definition last_rows :: "nat \<Rightarrow> nat \<Rightarrow> nat list" where
  "last_rows pop n = rev [pop - n ..< pop]"

definition five_reviews :: "(string \<times> string) list" where
  "five_reviews =
     [(''a fine film'', ''positive''), (''dull'', ''negative''), (''great'', ''positive''),
      (''bad plot'', ''negative''), (''awful'', ''negative'')]"

subsection \<open>Shapes of the rows while the notebook runs\<close>

definition labeled_rows :: "(int \<times> cell list) list \<Rightarrow> bool" where
  "labeled_rows rs \<longleftrightarrow> (\<forall>row \<in> set rs. \<exists>i r s. row = (i, [TextC r, TextC s]))"

definition review_rows :: "(int \<times> cell list) list \<Rightarrow> bool" where
  "review_rows rs \<longleftrightarrow> (\<forall>row \<in> set rs. \<exists>i r. row = (i, [TextC r]))"

definition unlabel :: "int \<times> cell list \<Rightarrow> int \<times> cell list" where
  "unlabel row = (fst row, take 1 (snd row))"

section \<open>Properties of the partitioning\<close>

lemma index_read_csv: "index (read_csv lines) = map int [0 ..< length lines]"
  by (simp add: index_def read_csv_def)

lemma labeled_rows_read_csv: "labeled_rows (rws (read_csv lines))"
  by (auto simp: labeled_rows_def read_csv_def set_zip split: prod.splits)

lemma labeled_rows_subset: "labeled_rows rs \<Longrightarrow> set rs' \<subseteq> set rs \<Longrightarrow> labeled_rows rs'"
  by (auto simp: labeled_rows_def)

lemma sample_Inr:
  assumes "n \<le> length (rws df)"
      and "set (choice (length (rws df)) n) \<subseteq> {..< length (rws df)}"
  shows "sample choice n df
           = Inr (df\<lparr>rws := map (\<lambda>i. rws df ! i) (choice (length (rws df)) n)\<rparr>)"
  using assms by (auto simp: sample_def Let_def)

lemma drop_index_Inr:
  assumes "set labels \<subseteq> set (index df)"
  shows "drop_index labels df = Inr (df\<lparr>rws := filter (\<lambda>r. fst r \<notin> set labels) (rws df)\<rparr>)"
  using assms by (auto simp: drop_index_def)

lemma length_filter_labels:
  assumes "distinct (map fst rs)"
  shows "length (filter (\<lambda>r. fst r \<in> set labels) rs) \<le> length labels"
proof -
  have d: "distinct (map fst (filter (\<lambda>r. fst r \<in> set labels) rs))"
    using assms by (simp add: distinct_map_filter)
  have "length (filter (\<lambda>r. fst r \<in> set labels) rs)
          = length (map fst (filter (\<lambda>r. fst r \<in> set labels) rs))" by simp
  also have "\<dots> = card (set (map fst (filter (\<lambda>r. fst r \<in> set labels) rs)))"
    using d by (simp only: distinct_card)
  also have "\<dots> \<le> card (set labels)"
    by (rule card_mono) auto
  also have "\<dots> \<le> length labels" by (rule card_length)
  finally show ?thesis .
qed

lemma length_drop_rows:
  assumes "distinct (map fst rs)"
  shows "length rs - length labels \<le> length (filter (\<lambda>r. fst r \<notin> set labels) rs)"
proof -
  have "length (filter (\<lambda>r. fst r \<in> set labels) rs)
          + length (filter (\<lambda>r. \<not> fst r \<in> set labels) rs) = length rs"
    by (rule sum_length_filter_compl)
  with length_filter_labels [OF assms, of labels] show ?thesis by simp
qed

lemma map_zip_snd: "length js = length xs \<Longrightarrow> map (\<lambda>(j, x). f x) (zip js xs) = map f xs"
  by (induction js xs rule: list_induct2) auto

lemma export_labeled:
  assumes "db name = Some \<lparr>tcolumns = [''id'', ''review'', ''sentiment''], trows = old\<rparr>"
      and "labeled_rows rs"
  shows "export name \<lparr>columns = [''review'', ''sentiment''], rws = rs\<rparr> db
           = Inr (db(name \<mapsto> \<lparr>tcolumns = [''id'', ''review'', ''sentiment''],
                               trows = old @ map (\<lambda>(i, cells). IntC i # cells) rs\<rparr>))"
proof -
  have "map (\<lambda>(j, cells).
              map (\<lambda>c. case map_of (zip [''id'', ''review'', ''sentiment''] cells) c of
                         None \<Rightarrow> NullC | Some v \<Rightarrow> v) [''id'', ''review'', ''sentiment''])
          (zip (map int [0 ..< length rs]) (map (\<lambda>(i, cells). IntC i # cells) rs))
        = map (\<lambda>cells.
              map (\<lambda>c. case map_of (zip [''id'', ''review'', ''sentiment''] cells) c of
                         None \<Rightarrow> NullC | Some v \<Rightarrow> v) [''id'', ''review'', ''sentiment''])
          (map (\<lambda>(i, cells). IntC i # cells) rs)"
    by (rule map_zip_snd) simp
  also have "\<dots> = map (\<lambda>(i, cells). IntC i # cells) rs"
    using assms(2) by (auto simp: labeled_rows_def)
  finally show ?thesis
    using assms(1) by (simp add: export_def reset_index_def rename_def to_sql_def)
qed


lemma export_unlabeled:
  assumes "db name = Some \<lparr>tcolumns = [''id'', ''review''], trows = old\<rparr>"
      and "review_rows rs"
  shows "export name \<lparr>columns = [''review''], rws = rs\<rparr> db
           = Inr (db(name \<mapsto> \<lparr>tcolumns = [''id'', ''review''],
                               trows = old @ map (\<lambda>(i, cells). IntC i # cells) rs\<rparr>))"
proof -
  have "map (\<lambda>(j, cells).
              map (\<lambda>c. case map_of (zip [''id'', ''review''] cells) c of
                         None \<Rightarrow> NullC | Some v \<Rightarrow> v) [''id'', ''review''])
          (zip (map int [0 ..< length rs]) (map (\<lambda>(i, cells). IntC i # cells) rs))
        = map (\<lambda>cells.
              map (\<lambda>c. case map_of (zip [''id'', ''review''] cells) c of
                         None \<Rightarrow> NullC | Some v \<Rightarrow> v) [''id'', ''review''])
          (map (\<lambda>(i, cells). IntC i # cells) rs)"
    by (rule map_zip_snd) simp
  also have "\<dots> = map (\<lambda>(i, cells). IntC i # cells) rs"
    using assms(2) by (auto simp: review_rows_def)
  finally show ?thesis
    using assms(1) by (simp add: export_def reset_index_def rename_def to_sql_def)
qed

lemma drop_columns_sentiment:
  assumes "labeled_rows rs"
  shows "drop_columns ''sentiment'' \<lparr>columns = [''review'', ''sentiment''], rws = rs\<rparr>
           = Inr \<lparr>columns = [''review''], rws = map unlabel rs\<rparr>"
proof -
  have "map (\<lambda>(i, cells). (i, map snd (filter (\<lambda>(c, v). c \<noteq> ''sentiment'')
                                    (zip [''review'', ''sentiment''] cells)))) rs
        = map unlabel rs"
    using assms by (auto simp: labeled_rows_def unlabel_def)
  then show ?thesis by (simp add: drop_columns_def)
qed

lemma review_rows_unlabel: "labeled_rows rs \<Longrightarrow> review_rows (map unlabel rs)"
  by (auto simp: labeled_rows_def review_rows_def unlabel_def)


lemma image_drop_rows:
  "fst ` set (filter (\<lambda>r. fst r \<notin> set (map fst T)) rs) = fst ` set rs - fst ` set T"
  by auto

lemma split3_cover:
  "A \<subseteq> I \<Longrightarrow> R = I - A \<Longrightarrow> B \<subseteq> R \<Longrightarrow> U = R - B \<Longrightarrow> A \<union> B \<union> U = I"
  by auto

lemma split3_disjoint:
  "R = I - A \<Longrightarrow> B \<subseteq> R \<Longrightarrow> U = R - B \<Longrightarrow> A \<inter> B = {} \<and> A \<inter> U = {} \<and> B \<inter> U = {}"
  by auto

lemma partition_corpus_result:
  assumes choice: "\<And>pop n. n \<le> pop \<Longrightarrow>
                     length (choice pop n) = n \<and> set (choice pop n) \<subseteq> {..< pop}"
      and size: "n_train + n_val \<le> length lines"
  obtains p T V U where
        "partition_corpus choice n_train n_val lines Map.empty = Inr p"
    and "training_set p = \<lparr>columns = [''review'', ''sentiment''], rws = T\<rparr>"
    and "validation_set p = \<lparr>columns = [''review'', ''sentiment''], rws = V\<rparr>"
    and "unlabeled_pool p = \<lparr>columns = [''review''], rws = map unlabel U\<rparr>"
    and "conn p ''training''
           = Some \<lparr>tcolumns = [''id'', ''review'', ''sentiment''],
                   trows = map (\<lambda>(i, cells). IntC i # cells) T\<rparr>"
    and "conn p ''validation''
           = Some \<lparr>tcolumns = [''id'', ''review'', ''sentiment''],
                   trows = map (\<lambda>(i, cells). IntC i # cells) V\<rparr>"
    and "conn p ''unlabeled_pool''
           = Some \<lparr>tcolumns = [''id'', ''review''],
                   trows = map (\<lambda>(i, cells). IntC i # cells) (map unlabel U)\<rparr>"
    and "set T \<subseteq> set (rws (read_csv lines))"
    and "set V \<subseteq> set (rws (read_csv lines))"
    and "set U \<subseteq> set (rws (read_csv lines))"
    and "fst ` set T \<inter> fst ` set V = {}"
    and "fst ` set T \<inter> fst ` set U = {}"
    and "fst ` set V \<inter> fst ` set U = {}"
    and "fst ` set T \<union> fst ` set V \<union> fst ` set U = int ` {..< length lines}"
proof -
  define rows0 where "rows0 = rws (read_csv lines)"
  let ?cols = "[''review'', ''sentiment'']"
  have df: "read_csv lines = \<lparr>columns = ?cols, rws = rows0\<rparr>"
    by (simp add: rows0_def read_csv_def)
  have len0: "length rows0 = length lines"
    by (simp add: rows0_def read_csv_def)
  have fst0: "map fst rows0 = map int [0 ..< length lines]"
    by (simp add: rows0_def read_csv_def)
  have dist0: "distinct (map fst rows0)"
    by (simp add: fst0 distinct_map)
  have lab0: "labeled_rows rows0"
    unfolding rows0_def by (rule labeled_rows_read_csv)

  define T where "T = map (\<lambda>i. rows0 ! i) (choice (length rows0) n_train)"
  have c1: "length (choice (length rows0) n_train) = n_train
            \<and> set (choice (length rows0) n_train) \<subseteq> {..< length rows0}"
    using choice [of n_train "length rows0"] size len0 by simp
  have sT: "sample choice n_train \<lparr>columns = ?cols, rws = rows0\<rparr> = Inr \<lparr>columns = ?cols, rws = T\<rparr>"
    using sample_Inr [of n_train "\<lparr>columns = ?cols, rws = rows0\<rparr>" choice] c1 size len0
    by (simp add: T_def)
  have lenT: "length T = n_train" using c1 by (simp add: T_def)
  have subT: "set T \<subseteq> set rows0"
    using c1 by (auto simp: T_def)

  define R1 where "R1 = filter (\<lambda>r. fst r \<notin> set (map fst T)) rows0"
  have dT: "drop_index (index \<lparr>columns = ?cols, rws = T\<rparr>) \<lparr>columns = ?cols, rws = rows0\<rparr>
              = Inr \<lparr>columns = ?cols, rws = R1\<rparr>"
    using drop_index_Inr [of "map fst T" "\<lparr>columns = ?cols, rws = rows0\<rparr>"] subT
    by (auto simp: index_def R1_def)
  have subR1: "set R1 \<subseteq> set rows0" by (auto simp: R1_def)
  have distR1: "distinct (map fst R1)"
    using dist0 by (simp add: R1_def distinct_map_filter)
  have lenR1: "n_val \<le> length R1"
    using length_drop_rows [OF dist0, of "map fst T"] lenT size len0 by (simp add: R1_def)

  define V where "V = map (\<lambda>i. R1 ! i) (choice (length R1) n_val)"
  have c2: "length (choice (length R1) n_val) = n_val
            \<and> set (choice (length R1) n_val) \<subseteq> {..< length R1}"
    using choice [of n_val "length R1"] lenR1 by simp
  have sV: "sample choice n_val \<lparr>columns = ?cols, rws = R1\<rparr> = Inr \<lparr>columns = ?cols, rws = V\<rparr>"
    using sample_Inr [of n_val "\<lparr>columns = ?cols, rws = R1\<rparr>" choice] c2 lenR1
    by (simp add: V_def)
  have subV: "set V \<subseteq> set R1"
    using c2 by (auto simp: V_def)

  define U where "U = filter (\<lambda>r. fst r \<notin> set (map fst V)) R1"
  have dV: "drop_index (index \<lparr>columns = ?cols, rws = V\<rparr>) \<lparr>columns = ?cols, rws = R1\<rparr>
              = Inr \<lparr>columns = ?cols, rws = U\<rparr>"
    using drop_index_Inr [of "map fst V" "\<lparr>columns = ?cols, rws = R1\<rparr>"] subV
    by (auto simp: index_def U_def)
  have subU: "set U \<subseteq> set R1" by (auto simp: U_def)

  have labT: "labeled_rows T" using lab0 subT by (rule labeled_rows_subset)
  have labV: "labeled_rows V" using lab0 subV subR1 by (blast intro: labeled_rows_subset)
  have labU: "labeled_rows U" using lab0 subU subR1 by (blast intro: labeled_rows_subset)

  define db3 where
    "db3 = create_table ''unlabeled_pool'' [''id'', ''review'']
             (create_table ''validation'' [''id'', ''review'', ''sentiment'']
                (create_table ''training'' [''id'', ''review'', ''sentiment''] Map.empty))"
  have db3_t: "db3 ''training'' = Some \<lparr>tcolumns = [''id'', ''review'', ''sentiment''], trows = []\<rparr>"
   and db3_v: "db3 ''validation'' = Some \<lparr>tcolumns = [''id'', ''review'', ''sentiment''], trows = []\<rparr>"
   and db3_u: "db3 ''unlabeled_pool'' = Some \<lparr>tcolumns = [''id'', ''review''], trows = []\<rparr>"
    by (simp_all add: db3_def create_table_def)

  define db4 where
    "db4 = db3(''training'' \<mapsto> \<lparr>tcolumns = [''id'', ''review'', ''sentiment''],
                                 trows = map (\<lambda>(i, cells). IntC i # cells) T\<rparr>)"
  have eT: "export ''training'' \<lparr>columns = ?cols, rws = T\<rparr> db3 = Inr db4"
    using export_labeled [of db3 "''training''" "[]" T] db3_t labT by (simp add: db4_def)
  have db4_v: "db4 ''validation'' = Some \<lparr>tcolumns = [''id'', ''review'', ''sentiment''], trows = []\<rparr>"
    by (simp add: db4_def db3_v)

  define db5 where
    "db5 = db4(''validation'' \<mapsto> \<lparr>tcolumns = [''id'', ''review'', ''sentiment''],
                                   trows = map (\<lambda>(i, cells). IntC i # cells) V\<rparr>)"
  have eV: "export ''validation'' \<lparr>columns = ?cols, rws = V\<rparr> db4 = Inr db5"
    using export_labeled [of db4 "''validation''" "[]" V] db4_v labV by (simp add: db5_def)
  have db5_u: "db5 ''unlabeled_pool'' = Some \<lparr>tcolumns = [''id'', ''review''], trows = []\<rparr>"
    by (simp add: db5_def db4_def db3_u)

  have dc: "drop_columns ''sentiment'' \<lparr>columns = ?cols, rws = U\<rparr>
              = Inr \<lparr>columns = [''review''], rws = map unlabel U\<rparr>"
    using drop_columns_sentiment [OF labU] by simp

  define db6 where
    "db6 = db5(''unlabeled_pool'' \<mapsto> \<lparr>tcolumns = [''id'', ''review''],
                       trows = map (\<lambda>(i, cells). IntC i # cells) (map unlabel U)\<rparr>)"
  have eU: "export ''unlabeled_pool'' \<lparr>columns = [''review''], rws = map unlabel U\<rparr> db5 = Inr db6"
    using export_unlabeled [of db5 "''unlabeled_pool''" "[]" "map unlabel U"] db5_u
      review_rows_unlabel [OF labU]
    by (simp add: db6_def)

  define p where
    "p = \<lparr>training_set = \<lparr>columns = ?cols, rws = T\<rparr>,
          validation_set = \<lparr>columns = ?cols, rws = V\<rparr>,
          unlabeled_pool = \<lparr>columns = [''review''], rws = map unlabel U\<rparr>,
          conn = db6\<rparr>"
  have run: "partition_corpus choice n_train n_val lines Map.empty = Inr p"
    unfolding partition_corpus_def Let_def
    apply (fold db3_def)
    apply (simp only: df)
    apply (simp only: sT sum.case)
    apply (simp only: dT sum.case)
    apply (simp only: eT sum.case)
    apply (simp only: sV sum.case)
    apply (simp only: dV sum.case)
    apply (simp only: eV sum.case)
    apply (simp only: dc sum.case)
    apply (simp only: eU sum.case)
    apply (simp only: p_def)
    done
  have iT: "fst ` set T \<subseteq> fst ` set rows0" using subT by blast
  have iR1: "fst ` set R1 = fst ` set rows0 - fst ` set T"
    unfolding R1_def by (rule image_drop_rows)
  have iV: "fst ` set V \<subseteq> fst ` set R1" using subV by blast
  have iU: "fst ` set U = fst ` set R1 - fst ` set V"
    unfolding U_def by (rule image_drop_rows)
  have i0: "fst ` set rows0 = int ` {..< length lines}"
  proof -
    have "fst ` set rows0 = set (map fst rows0)" by simp
    also have "\<dots> = int ` {..< length lines}"
      by (simp only: fst0 set_map set_upt atLeast0LessThan)
    finally show ?thesis .
  qed

  note dj = split3_disjoint [OF iR1 iV iU]
  have x1: "fst ` set T \<inter> fst ` set V = {}" using dj by (rule conjunct1)
  have x2: "fst ` set T \<inter> fst ` set U = {}" using dj by (elim conjE)
  have x3: "fst ` set V \<inter> fst ` set U = {}" using dj by (elim conjE)
  have x4: "fst ` set T \<union> fst ` set V \<union> fst ` set U = int ` {..< length lines}"
    using split3_cover [OF iT iR1 iV iU] i0 by simp
  have t1: "conn p ''training''
              = Some \<lparr>tcolumns = [''id'', ''review'', ''sentiment''],
                      trows = map (\<lambda>(i, cells). IntC i # cells) T\<rparr>"
    by (simp add: p_def db6_def db5_def db4_def)
  have t2: "conn p ''validation''
              = Some \<lparr>tcolumns = [''id'', ''review'', ''sentiment''],
                      trows = map (\<lambda>(i, cells). IntC i # cells) V\<rparr>"
    by (simp add: p_def db6_def db5_def)
  have t3: "conn p ''unlabeled_pool''
              = Some \<lparr>tcolumns = [''id'', ''review''],
                      trows = map (\<lambda>(i, cells). IntC i # cells) (map unlabel U)\<rparr>"
    by (simp add: p_def db6_def)
  have s1: "set T \<subseteq> set (rws (read_csv lines))" using subT by (simp add: rows0_def)
  have s2: "set V \<subseteq> set (rws (read_csv lines))"
    using subV subR1 by (auto simp: rows0_def)
  have s3: "set U \<subseteq> set (rws (read_csv lines))"
    using subU subR1 by (auto simp: rows0_def)
  have f1: "training_set p = \<lparr>columns = [''review'', ''sentiment''], rws = T\<rparr>"
    by (simp add: p_def)
  have f2: "validation_set p = \<lparr>columns = [''review'', ''sentiment''], rws = V\<rparr>"
    by (simp add: p_def)
  have f3: "unlabeled_pool p = \<lparr>columns = [''review''], rws = map unlabel U\<rparr>"
    by (simp add: p_def)
  show thesis
    by (rule that [of p T V U, OF run f1 f2 f3 t1 t2 t3 s1 s2 s3 x1 x2 x3 x4])
qed

lemma table_ids_rows:
  assumes "db name = Some \<lparr>tcolumns = ''id'' # cs, trows = map (\<lambda>(i, cells). IntC i # cells) rs\<rparr>"
  shows "table_ids db name = fst ` set rs"
proof -
  have "concat (map (row_id \<lparr>tcolumns = ''id'' # cs, trows = map (\<lambda>(i, cells). IntC i # cells) rs\<rparr>)
                    (map (\<lambda>(i, cells). IntC i # cells) rs)) = map fst rs"
    by (induction rs) (auto simp: row_id_def field_def)
  then show ?thesis using assms by (simp add: table_ids_def)
qed

text \<open>
  Claim C2. Once the notebook has run on a fresh database, the index labels (the
  ids) of the training set, the validation set and the unlabeled pool are pairwise
  disjoint and together are exactly the index of the corpus read from the file; the
  id columns of the three tables hold the same three sets. Nothing in the
  notebooks changes the three sets afterwards. The notebook is the instance
  \<open>n_train = 5000\<close>, \<open>n_val = 2000\<close> on a corpus of 50000 lines.
\<close>

theorem partition_ids_disjoint_cover:
  assumes "\<forall>pop n. n \<le> pop \<longrightarrow> length (choice pop n) = n \<and> set (choice pop n) \<subseteq> {..< pop}"
      and "n_train + n_val \<le> length lines"
  shows "\<exists>p. partition_corpus choice n_train n_val lines Map.empty = Inr p
           \<and> set (index (training_set p)) \<inter> set (index (validation_set p)) = {}
           \<and> set (index (training_set p)) \<inter> set (index (unlabeled_pool p)) = {}
           \<and> set (index (validation_set p)) \<inter> set (index (unlabeled_pool p)) = {}
           \<and> set (index (training_set p)) \<union> set (index (validation_set p))
                \<union> set (index (unlabeled_pool p)) = set (index (read_csv lines))
           \<and> table_ids (conn p) ''training'' = set (index (training_set p))
           \<and> table_ids (conn p) ''validation'' = set (index (validation_set p))
           \<and> table_ids (conn p) ''unlabeled_pool'' = set (index (unlabeled_pool p))"
proof -
  have c: "\<And>pop n. n \<le> pop \<Longrightarrow> length (choice pop n) = n \<and> set (choice pop n) \<subseteq> {..< pop}"
    using assms(1) by blast
  show ?thesis
  proof (rule partition_corpus_result [of choice n_train n_val lines, OF c assms(2)])
    fix p T V U
    assume run: "partition_corpus choice n_train n_val lines Map.empty = Inr p"
    and f1: "training_set p = \<lparr>columns = [''review'', ''sentiment''], rws = T\<rparr>"
    and f2: "validation_set p = \<lparr>columns = [''review'', ''sentiment''], rws = V\<rparr>"
    and f3: "unlabeled_pool p = \<lparr>columns = [''review''], rws = map unlabel U\<rparr>"
    and t1: "conn p ''training''
              = Some \<lparr>tcolumns = [''id'', ''review'', ''sentiment''],
                      trows = map (\<lambda>(i, cells). IntC i # cells) T\<rparr>"
    and t2: "conn p ''validation''
              = Some \<lparr>tcolumns = [''id'', ''review'', ''sentiment''],
                      trows = map (\<lambda>(i, cells). IntC i # cells) V\<rparr>"
    and t3: "conn p ''unlabeled_pool''
              = Some \<lparr>tcolumns = [''id'', ''review''],
                      trows = map (\<lambda>(i, cells). IntC i # cells) (map unlabel U)\<rparr>"
    and x1: "fst ` set T \<inter> fst ` set V = {}"
    and x2: "fst ` set T \<inter> fst ` set U = {}"
    and x3: "fst ` set V \<inter> fst ` set U = {}"
    and x4: "fst ` set T \<union> fst ` set V \<union> fst ` set U = int ` {..< length lines}"
    have iT: "set (index (training_set p)) = fst ` set T" by (simp add: f1 index_def)
    have iV: "set (index (validation_set p)) = fst ` set V" by (simp add: f2 index_def)
    have iU: "set (index (unlabeled_pool p)) = fst ` set U"
      by (simp add: f3 index_def unlabel_def image_image)
    have i0: "set (index (read_csv lines)) = int ` {..< length lines}"
      by (simp only: index_read_csv set_map set_upt atLeast0LessThan)
    have k1: "table_ids (conn p) ''training'' = fst ` set T"
      using table_ids_rows [of "conn p" "''training''" "[''review'', ''sentiment'']" T] t1
      by simp
    have k2: "table_ids (conn p) ''validation'' = fst ` set V"
      using table_ids_rows [of "conn p" "''validation''" "[''review'', ''sentiment'']" V] t2
      by simp
    have k3: "table_ids (conn p) ''unlabeled_pool'' = fst ` set U"
      using table_ids_rows [of "conn p" "''unlabeled_pool''" "[''review'']" "map unlabel U"] t3
      by (simp add: unlabel_def image_image)
    show ?thesis
      apply (rule exI [of _ p])
      apply (simp only: iT iV iU i0 k1 k2 k3 x1 x2 x3 x4 run)
      done
  qed
qed

theorem partition_ids_disjoint_cover_witness:
  "(\<exists>p. partition_corpus last_rows 2 1 five_reviews Map.empty = Inr p
           \<and> set (index (training_set p)) \<inter> set (index (validation_set p)) = {}
           \<and> set (index (training_set p)) \<inter> set (index (unlabeled_pool p)) = {}
           \<and> set (index (validation_set p)) \<inter> set (index (unlabeled_pool p)) = {}
           \<and> set (index (training_set p)) \<union> set (index (validation_set p))
                \<union> set (index (unlabeled_pool p)) = set (index (read_csv five_reviews))
           \<and> table_ids (conn p) ''training'' = set (index (training_set p))
           \<and> table_ids (conn p) ''validation'' = set (index (validation_set p))
           \<and> table_ids (conn p) ''unlabeled_pool'' = set (index (unlabeled_pool p)))
   \<and> (\<exists>p. imdb_partition last_rows (replicate 50000 (''a review'', ''positive'')) Map.empty
              = Inr p
           \<and> set (index (training_set p)) \<inter> set (index (validation_set p)) = {}
           \<and> set (index (training_set p)) \<inter> set (index (unlabeled_pool p)) = {}
           \<and> set (index (validation_set p)) \<inter> set (index (unlabeled_pool p)) = {}
           \<and> set (index (training_set p)) \<union> set (index (validation_set p))
                \<union> set (index (unlabeled_pool p))
               = set (index (read_csv (replicate 50000 (''a review'', ''positive''))))
           \<and> table_ids (conn p) ''training'' = set (index (training_set p))
           \<and> table_ids (conn p) ''validation'' = set (index (validation_set p))
           \<and> table_ids (conn p) ''unlabeled_pool'' = set (index (unlabeled_pool p)))"
proof -
  have h1: "\<forall>pop n. n \<le> pop \<longrightarrow>
              length (last_rows pop n) = n \<and> set (last_rows pop n) \<subseteq> {..< pop}"
    by (auto simp: last_rows_def)
  have h2: "2 + 1 \<le> length five_reviews" by (simp add: five_reviews_def)
  have h3: "5000 + 2000 \<le> length (replicate 50000 (''a review'', ''positive''))" by simp
  show ?thesis
    unfolding imdb_partition_def
    using partition_ids_disjoint_cover [OF h1 h2] partition_ids_disjoint_cover [OF h1 h3]
    by (rule conjI)
qed







section \<open>Properties of the preprocessor\<close>

lemma preprocess_loop_Inr:
  "preprocess_loop tk CONFIG xs acc = Inr out \<longleftrightarrow>
     (\<exists>ts. out = acc @ ts \<and> list_all2 (\<lambda>x t. normalize_text tk CONFIG x = Inr t) xs ts)"
proof (induction xs arbitrary: acc)
  case Nil
  show ?case by auto
next
  case (Cons x xs)
  show ?case
  proof (cases "normalize_text tk CONFIG x")
    case (Inl e)
    then show ?thesis by (simp add: list_all2_Cons1)
  next
    case (Inr t)
    then show ?thesis by (auto simp: Cons.IH list_all2_Cons1)
  qed
qed

lemma preprocess_loop_Inr_nil:
  "preprocess_loop tk CONFIG xs [] = Inr out \<longleftrightarrow>
     list_all2 (\<lambda>x t. normalize_text tk CONFIG x = Inr t) xs out"
  by (simp add: preprocess_loop_Inr)

lemma preprocessor_Inr:
  "preprocessor tk CONFIG corpus = Inr out \<longleftrightarrow>
     (\<exists>ts. out = Lst ts
          \<and> list_all2 (\<lambda>x t. normalize_text tk CONFIG x = Inr t) (texts_of corpus) ts)"
proof (cases "preprocess_loop tk CONFIG (texts_of corpus) []")
  case (Inl e)
  have "\<not> list_all2 (\<lambda>x t. normalize_text tk CONFIG x = Inr t) (texts_of corpus) ts" for ts
    using Inl preprocess_loop_Inr_nil [of tk CONFIG "texts_of corpus" ts] by simp
  with Inl show ?thesis by (simp add: preprocessor_def)
next
  case (Inr ts)
  have "list_all2 (\<lambda>x t. normalize_text tk CONFIG x = Inr t) (texts_of corpus) ts' \<longleftrightarrow> ts' = ts"
    for ts'
    using Inr preprocess_loop_Inr_nil [of tk CONFIG "texts_of corpus" ts'] by auto
  with Inr show ?thesis by (auto simp: preprocessor_def)
qed

text \<open>
  Claim C9. A string input returns exactly the one-element list of its
  normalization, a list input returns the list of the normalizations of its texts
  in input order, and no input returns a bare string.
\<close>

theorem preprocessor_result_list:
  "(preprocessor tk CONFIG (Str s) = Inr out \<longleftrightarrow>
      (\<exists>t. normalize_text tk CONFIG s = Inr t \<and> out = Lst [t]))
   \<and> (preprocessor tk CONFIG (Lst xs) = Inr out \<longleftrightarrow>
      (\<exists>ts. out = Lst ts \<and> length ts = length xs
          \<and> (\<forall>i < length xs. normalize_text tk CONFIG (xs ! i) = Inr (ts ! i))))
   \<and> preprocessor tk CONFIG corpus \<noteq> Inr (Str t')"
proof (intro conjI)
  show "preprocessor tk CONFIG (Str s) = Inr out \<longleftrightarrow>
      (\<exists>t. normalize_text tk CONFIG s = Inr t \<and> out = Lst [t])"
    by (auto simp: preprocessor_Inr texts_of_def list_all2_Cons1)
  show "preprocessor tk CONFIG (Lst xs) = Inr out \<longleftrightarrow>
      (\<exists>ts. out = Lst ts \<and> length ts = length xs
          \<and> (\<forall>i < length xs. normalize_text tk CONFIG (xs ! i) = Inr (ts ! i)))"
    by (auto simp: preprocessor_Inr texts_of_def list_all2_conv_all_nth)
  show "preprocessor tk CONFIG corpus \<noteq> Inr (Str t')"
    by (simp add: preprocessor_Inr)
qed

theorem preprocessor_result_list_witness:
  "preprocessor toy_nltk lemma_config (Lst [''<b>Cats</b> & dogs!'', ''fine''])
     = Inr (Lst [''Cats dogs'', ''fine''])
   \<and> normalize_text toy_nltk lemma_config ''<b>Cats</b> & dogs!'' = Inr ''Cats dogs''
   \<and> normalize_text toy_nltk lemma_config ''fine'' = Inr ''fine''"
proof -
  have n1: "normalize_text toy_nltk lemma_config ''<b>Cats</b> & dogs!'' = Inr ''Cats dogs''"
    by (simp add: normalize_text_def clean_text_def lemma_config_def toy_nltk_def toy_tag_def
        pos_tagger_def tag_dict_def lower_char_def is_alnum_def is_space_def)
  have n2: "normalize_text toy_nltk lemma_config ''fine'' = Inr ''fine''"
    by (simp add: normalize_text_def clean_text_def lemma_config_def toy_nltk_def toy_tag_def
        pos_tagger_def tag_dict_def lower_char_def is_alnum_def is_space_def)
  have "\<forall>i < length [''<b>Cats</b> & dogs!'', ''fine''].
          normalize_text toy_nltk lemma_config ([''<b>Cats</b> & dogs!'', ''fine''] ! i)
            = Inr ([''Cats dogs'', ''fine''] ! i)"
    using n1 n2 by (simp add: less_Suc_eq nth_Cons' numeral_2_eq_2)
  then have "preprocessor toy_nltk lemma_config (Lst [''<b>Cats</b> & dogs!'', ''fine''])
               = Inr (Lst [''Cats dogs'', ''fine''])"
    using preprocessor_result_list
            [of toy_nltk lemma_config "''x''" "Lst [''Cats dogs'', ''fine'']"
                "[''<b>Cats</b> & dogs!'', ''fine'']" "Str ''x''" "''x''"]
    by simp
  with n1 n2 show ?thesis by simp
qed

lemma toy_stem_run:
  "preprocessor toy_nltk stem_config (Str ''<b>Cats</b> & dogs!'') = Inr (Lst [''Cat dog''])"
  by (simp add: preprocessor_def texts_of_def normalize_text_def clean_text_def stem_config_def
      toy_nltk_def strip_s_def is_alnum_def is_space_def)


lemma collapse_runs_True: "collapse_runs P True xs = collapse_runs P False (dropWhile P xs)"
  by (induction xs) auto

lemma sub_runs_collapse: "repl = '' '' \<Longrightarrow> sub_runs P repl xs = collapse_runs P False xs"
  by (induction P repl xs rule: sub_runs.induct) (auto simp: collapse_runs_True)

lemma set_sub_tags: "set (sub_tags s) \<subseteq> set s"
proof (induction s rule: sub_tags.induct)
  case 1
  show ?case by simp
next
  case (2 c cs)
  let ?rest = "dropWhile (\<lambda>x. x \<noteq> CHR ''>'') cs"
  have "set (tl ?rest) \<subseteq> set cs"
  proof
    fix x assume "x \<in> set (tl ?rest)"
    then have "x \<in> set ?rest" by (cases ?rest) auto
    then show "x \<in> set cs" by (rule set_dropWhileD)
  qed
  with 2 show ?case by (auto split: if_splits)
qed

lemma tag_at_sub_tags:
  assumes "\<not> tag_at (c # cs)"
  shows "\<not> tag_at (c # sub_tags cs)"
proof (cases "c = CHR ''<''")
  case False
  then show ?thesis by (simp add: tag_at_def)
next
  case True
  show ?thesis
  proof (cases cs)
    case Nil
    then show ?thesis by (simp add: tag_at_def)
  next
    case (Cons d ds)
    show ?thesis
    proof (cases "d = CHR ''>''")
      case True
      then show ?thesis using Cons by (simp add: tag_at_def)
    next
      case False
      with assms True Cons have "dropWhile (\<lambda>x. x \<noteq> CHR ''>'') cs = []"
        by (auto simp: tag_at_def)
      then have "CHR ''>'' \<notin> set cs"
        by (auto simp: dropWhile_eq_Nil_conv)
      then have "CHR ''>'' \<notin> set (sub_tags cs)" using set_sub_tags by blast
      then show ?thesis by (auto simp: tag_at_def)
    qed
  qed
qed

lemma sub_tags_no_tag: "\<not> has_tag (sub_tags s)"
proof (induction s rule: sub_tags.induct)
  case 1
  show ?case by simp
next
  case (2 c cs)
  show ?case
  proof (cases "c = CHR ''<''
         \<and> takeWhile (\<lambda>x. x \<noteq> CHR ''>'') cs \<noteq> []
         \<and> dropWhile (\<lambda>x. x \<noteq> CHR ''>'') cs \<noteq> []")
    case True
    with 2 show ?thesis by simp
  next
    case False
    then have nt: "\<not> tag_at (c # cs)" by (auto simp: tag_at_def)
    from False 2 have "\<not> has_tag (sub_tags cs)" by blast
    moreover have "sub_tags (c # cs) = c # sub_tags cs" using False by auto
    ultimately show ?thesis using tag_at_sub_tags [OF nt] by simp
  qed
qed

lemma pos_tagger_spec:
  "pos_tagger tk w =
     (case first_tag_letter tk w of None \<Rightarrow> Inl IndexError | Some c \<Rightarrow> Inr (pos_of_letter c))"
  by (auto simp: pos_tagger_def first_tag_letter_def pos_of_letter_def tag_dict_def Let_def
           split: list.splits prod.splits)

lemma lemmatize_all_spec:
  "list_all (\<lambda>w. first_tag_letter tk w \<noteq> None) ws \<Longrightarrow>
   lemmatize_all tk ws
     = Inr (map (\<lambda>w. lemmatize tk w (pos_of_letter (the (first_tag_letter tk w)))) ws)"
  by (induction ws) (auto simp: pos_tagger_spec)

lemma preprocess_loop_total:
  assumes "\<forall>x. \<exists>t. normalize_text tk CONFIG x = Inr t"
  shows "\<exists>out. preprocess_loop tk CONFIG xs acc = Inr out"
proof (induction xs arbitrary: acc)
  case Nil
  show ?case by simp
next
  case (Cons x xs)
  from assms obtain t where "normalize_text tk CONFIG x = Inr t" by blast
  with Cons show ?case by simp
qed

lemma normalize_text_unrecognized:
  "CONFIG ''NORMALIZER'' = Some m \<Longrightarrow> m \<noteq> ''stem'' \<Longrightarrow> m \<noteq> ''lemma'' \<Longrightarrow>
   normalize_text tk CONFIG text = Inl (Exception ''Please enter CONFIG[NORMALIZER] as stem or lemma'')"
  by (simp add: normalize_text_def)

lemma normalize_text_stem:
  "CONFIG ''NORMALIZER'' = Some ''stem'' \<Longrightarrow>
   normalize_text tk CONFIG text
     = Inr (join '' '' (map (stem tk) (word_tokenize tk (clean_text text))))"
  by (simp add: normalize_text_def)

lemma normalize_text_lemma:
  assumes "CONFIG ''NORMALIZER'' = Some ''lemma''"
      and "list_all (\<lambda>w. first_tag_letter tk w \<noteq> None) (word_tokenize tk (clean_text text))"
  shows "normalize_text tk CONFIG text
           = Inr (join '' '' (map (\<lambda>w. lemmatize tk w (pos_of_letter (the (first_tag_letter tk w))))
                                  (word_tokenize tk (clean_text text))))"
  using assms(1) lemmatize_all_spec [OF assms(2)] by (simp add: normalize_text_def)

text \<open>
  Claim C3. With a configured mode other than \<open>stem\<close> and \<open>lemma\<close>, the
  preprocessor raises its configuration exception for every input that holds at
  least one text (a string, or a non-empty list); with mode \<open>stem\<close> it returns for
  every input, and so it does with mode \<open>lemma\<close> when the tagger gives every token
  a non-empty tag.
\<close>

theorem preprocessor_mode_check:
  assumes "CONFIG ''NORMALIZER'' = Some m"
  shows "(m \<noteq> ''stem'' \<and> m \<noteq> ''lemma'' \<and> texts_of corpus \<noteq> [] \<longrightarrow>
            preprocessor tk CONFIG corpus
              = Inl (Exception ''Please enter CONFIG[NORMALIZER] as stem or lemma''))
       \<and> (m = ''stem'' \<longrightarrow> (\<exists>out. preprocessor tk CONFIG corpus = Inr out))
       \<and> (m = ''lemma'' \<and> (\<forall>w. first_tag_letter tk w \<noteq> None) \<longrightarrow>
            (\<exists>out. preprocessor tk CONFIG corpus = Inr out))"
proof (intro conjI impI)
  assume a: "m \<noteq> ''stem'' \<and> m \<noteq> ''lemma'' \<and> texts_of corpus \<noteq> []"
  then obtain x xs where xs: "texts_of corpus = x # xs" by (cases "texts_of corpus") auto
  have "normalize_text tk CONFIG x
          = Inl (Exception ''Please enter CONFIG[NORMALIZER] as stem or lemma'')"
    using assms a by (simp add: normalize_text_unrecognized)
  then show "preprocessor tk CONFIG corpus
               = Inl (Exception ''Please enter CONFIG[NORMALIZER] as stem or lemma'')"
    by (simp add: preprocessor_def xs)
next
  assume "m = ''stem''"
  with assms have "\<forall>x. \<exists>t. normalize_text tk CONFIG x = Inr t"
    by (simp add: normalize_text_stem)
  from preprocess_loop_total [OF this] obtain out
    where "preprocess_loop tk CONFIG (texts_of corpus) [] = Inr out" by blast
  then show "\<exists>out. preprocessor tk CONFIG corpus = Inr out"
    by (simp add: preprocessor_def)
next
  assume a: "m = ''lemma'' \<and> (\<forall>w. first_tag_letter tk w \<noteq> None)"
  have "\<forall>x. \<exists>t. normalize_text tk CONFIG x = Inr t"
  proof
    fix x
    have "list_all (\<lambda>w. first_tag_letter tk w \<noteq> None) (word_tokenize tk (clean_text x))"
      using a by (simp add: list_all_iff)
    from normalize_text_lemma [OF _ this] assms a
    show "\<exists>t. normalize_text tk CONFIG x = Inr t" by simp
  qed
  from preprocess_loop_total [OF this] obtain out
    where "preprocess_loop tk CONFIG (texts_of corpus) [] = Inr out" by blast
  then show "\<exists>out. preprocessor tk CONFIG corpus = Inr out"
    by (simp add: preprocessor_def)
qed

theorem preprocessor_mode_check_witness:
  "preprocessor toy_nltk other_config (Str ''<b>Cats</b> & dogs!'')
     = Inl (Exception ''Please enter CONFIG[NORMALIZER] as stem or lemma'')
   \<and> (\<exists>out. preprocessor toy_nltk stem_config (Str ''<b>Cats</b> & dogs!'') = Inr out)
   \<and> (\<exists>out. preprocessor toy_nltk lemma_config (Lst [''<b>Cats</b> & dogs!'', ''fine'']) = Inr out)"
proof -
  have tagged: "\<forall>w. first_tag_letter toy_nltk w \<noteq> None"
    by (simp add: first_tag_letter_def toy_nltk_def toy_tag_def)
  have c1: "other_config ''NORMALIZER'' = Some ''lower''" by (simp add: other_config_def)
  have c2: "stem_config ''NORMALIZER'' = Some ''stem''" by (simp add: stem_config_def)
  have c3: "lemma_config ''NORMALIZER'' = Some ''lemma''" by (simp add: lemma_config_def)
  show ?thesis
    using preprocessor_mode_check
            [of other_config "''lower''" "Str ''<b>Cats</b> & dogs!''" toy_nltk]
          preprocessor_mode_check
            [of stem_config "''stem''" "Str ''<b>Cats</b> & dogs!''" toy_nltk]
          preprocessor_mode_check
            [of lemma_config "''lemma''" "Lst [''<b>Cats</b> & dogs!'', ''fine'']" toy_nltk]
          c1 c2 c3 tagged
    by (simp add: texts_of_def)
qed






text \<open>
  Claim C5. The cleaning of a text is the three steps in this order: the markup
  tags are deleted (no tag is left), every run of characters outside
  \<open>[a-zA-Z0-9]\<close> collapses to one space, every run of whitespace collapses to one
  space. The cleaned text is tokenized and then, in mode \<open>stem\<close>, each token is
  stemmed and nothing else; in mode \<open>lemma\<close>, each token is lemmatized with the
  part of speech of its tag's first letter and nothing else. That part of speech is
  the noun when the letter is none of j, n, v, r.
\<close>

theorem normalize_text_steps:
  assumes "CONFIG ''NORMALIZER'' = Some m"
  shows "clean_text text
           = collapse_runs is_space False
               (collapse_runs (\<lambda>c. \<not> is_alnum c) False (sub_tags text))
       \<and> \<not> has_tag (sub_tags text)
       \<and> (m = ''stem'' \<longrightarrow>
            normalize_text tk CONFIG text
              = Inr (join '' '' (map (stem tk) (word_tokenize tk (clean_text text)))))
       \<and> (m = ''lemma''
            \<and> list_all (\<lambda>w. first_tag_letter tk w \<noteq> None) (word_tokenize tk (clean_text text))
          \<longrightarrow> normalize_text tk CONFIG text
              = Inr (join '' ''
                       (map (\<lambda>w. lemmatize tk w (pos_of_letter (the (first_tag_letter tk w))))
                            (word_tokenize tk (clean_text text)))))
       \<and> (first_tag_letter tk w = Some c
            \<and> lower_char c \<notin> {CHR ''j'', CHR ''n'', CHR ''v'', CHR ''r''}
          \<longrightarrow> pos_tagger tk w = Inr NOUN)"
proof (intro conjI impI)
  show "clean_text text
           = collapse_runs is_space False
               (collapse_runs (\<lambda>c. \<not> is_alnum c) False (sub_tags text))"
    by (simp add: clean_text_def sub_runs_collapse)
  show "\<not> has_tag (sub_tags text)" by (rule sub_tags_no_tag)
next
  assume "m = ''stem''"
  with assms show "normalize_text tk CONFIG text
              = Inr (join '' '' (map (stem tk) (word_tokenize tk (clean_text text))))"
    using normalize_text_stem [of CONFIG tk "text"] by simp
next
  assume "m = ''lemma''
            \<and> list_all (\<lambda>w. first_tag_letter tk w \<noteq> None) (word_tokenize tk (clean_text text))"
  with assms show "normalize_text tk CONFIG text
              = Inr (join '' ''
                       (map (\<lambda>w. lemmatize tk w (pos_of_letter (the (first_tag_letter tk w))))
                            (word_tokenize tk (clean_text text))))"
    using normalize_text_lemma [of CONFIG tk "text"] by blast
next
  assume "first_tag_letter tk w = Some c
            \<and> lower_char c \<notin> {CHR ''j'', CHR ''n'', CHR ''v'', CHR ''r''}"
  then show "pos_tagger tk w = Inr NOUN"
    by (simp add: pos_tagger_spec pos_of_letter_def)
qed

theorem normalize_text_steps_witness:
  "normalize_text toy_nltk stem_config ''<b>Cats</b> & dogs!'' = Inr ''Cat dog''
   \<and> normalize_text toy_nltk lemma_config ''<b>Cats</b> & dogs!'' = Inr ''Cats dogs''
   \<and> pos_tagger toy_nltk ''10'' = Inr NOUN"
proof -
  have c2: "stem_config ''NORMALIZER'' = Some ''stem''" by (simp add: stem_config_def)
  have c3: "lemma_config ''NORMALIZER'' = Some ''lemma''" by (simp add: lemma_config_def)
  have cl: "clean_text ''<b>Cats</b> & dogs!'' = ''Cats dogs ''"
    by (simp add: clean_text_def is_alnum_def is_space_def)
  have tk: "word_tokenize toy_nltk ''Cats dogs '' = [''Cats'', ''dogs'']"
    by (simp add: toy_nltk_def)
  have tg: "list_all (\<lambda>w. first_tag_letter toy_nltk w \<noteq> None) [''Cats'', ''dogs'']"
    by (simp add: first_tag_letter_def toy_nltk_def toy_tag_def)
  have l10: "first_tag_letter toy_nltk ''10'' = Some CHR ''C''"
    by (simp add: first_tag_letter_def toy_nltk_def toy_tag_def)
  have lc: "lower_char CHR ''C'' \<notin> {CHR ''j'', CHR ''n'', CHR ''v'', CHR ''r''}"
    by (simp add: lower_char_def char_of_def bit_0)
  note s1 = normalize_text_steps
      [of stem_config "''stem''" "''<b>Cats</b> & dogs!''" toy_nltk "''10''" "CHR ''C''", OF c2]
  note s2 = normalize_text_steps
      [of lemma_config "''lemma''" "''<b>Cats</b> & dogs!''" toy_nltk "''10''" "CHR ''C''", OF c3]
  have w1: "normalize_text toy_nltk stem_config ''<b>Cats</b> & dogs!''
              = Inr (join '' '' (map (stem toy_nltk)
                      (word_tokenize toy_nltk (clean_text ''<b>Cats</b> & dogs!''))))"
    using s1 [THEN conjunct2, THEN conjunct2, THEN conjunct1] by (rule mp) (rule refl)
  have tg': "''lemma'' = ''lemma''
             \<and> list_all (\<lambda>w. first_tag_letter toy_nltk w \<noteq> None)
                  (word_tokenize toy_nltk (clean_text ''<b>Cats</b> & dogs!''))"
    using tg by (simp only: cl tk)
  have w2: "normalize_text toy_nltk lemma_config ''<b>Cats</b> & dogs!''
              = Inr (join '' ''
                       (map (\<lambda>w. lemmatize toy_nltk w
                                   (pos_of_letter (the (first_tag_letter toy_nltk w))))
                            (word_tokenize toy_nltk (clean_text ''<b>Cats</b> & dogs!''))))"
    using s2 [THEN conjunct2, THEN conjunct2, THEN conjunct2, THEN conjunct1] tg'
    by (rule mp)
  have w3: "pos_tagger toy_nltk ''10'' = Inr NOUN"
    using s1 [THEN conjunct2, THEN conjunct2, THEN conjunct2, THEN conjunct2] l10 lc
    by blast
  have e1: "join '' '' (map (stem toy_nltk) [''Cats'', ''dogs'']) = ''Cat dog''"
    by (simp add: toy_nltk_def strip_s_def)
  have e2: "join '' '' (map (\<lambda>w. lemmatize toy_nltk w
                                   (pos_of_letter (the (first_tag_letter toy_nltk w))))
                            [''Cats'', ''dogs'']) = ''Cats dogs''"
    by (simp add: toy_nltk_def)
  show ?thesis
    using w1 w2 w3 by (simp only: cl tk e1 e2 simp_thms)
qed

lemma set_sub_runs: "set (sub_runs P repl xs) \<subseteq> {c \<in> set xs. \<not> P c} \<union> set repl"
proof (induction P repl xs rule: sub_runs.induct)
  case (1 P repl)
  show ?case by simp
next
  case (2 P repl c cs)
  have "set (dropWhile P cs) \<subseteq> set cs" by (auto dest: set_dropWhileD)
  with 2 show ?case by (auto split: if_splits)
qed

lemma clean_text_chars: "list_all clean_char (clean_text s)"
proof -
  have "set (clean_text s) \<subseteq> {c. clean_char c}"
    using set_sub_runs [of is_space "'' ''" "sub_runs (\<lambda>c. \<not> is_alnum c) '' '' (sub_tags s)"]
          set_sub_runs [of "\<lambda>c. \<not> is_alnum c" "'' ''" "sub_tags s"]
    by (auto simp: clean_text_def clean_char_def)
  then show ?thesis by (auto simp: list_all_iff)
qed

lemma set_join: "set (join sep xs) \<subseteq> set sep \<union> (\<Union>w \<in> set xs. set w)"
  by (induction sep xs rule: join.induct) auto

lemma join_clean_chars:
  assumes "list_all (list_all is_alnum) ws"
  shows "list_all clean_char (join '' '' ws)"
proof -
  have "set (join '' '' ws) \<subseteq> {c. clean_char c}"
    using set_join [of "'' ''" ws] assms by (auto simp: list_all_iff clean_char_def)
  then show ?thesis by (auto simp: list_all_iff)
qed

lemma lemmatize_all_alnum:
  assumes lm: "\<And>w p. list_all is_alnum w \<Longrightarrow> list_all is_alnum (lemmatize tk w p)"
  shows "lemmatize_all tk ws = Inr ls \<Longrightarrow> list_all (list_all is_alnum) ws \<Longrightarrow>
         list_all (list_all is_alnum) ls"
proof (induction ws arbitrary: ls)
  case Nil
  then show ?case by simp
next
  case (Cons w ws)
  from Cons.prems(1) obtain p ls' where
      p: "pos_tagger tk w = Inr p" and ls': "lemmatize_all tk ws = Inr ls'"
      and ls: "ls = lemmatize tk w p # ls'"
    by (auto split: sum.splits)
  have "list_all (list_all is_alnum) ls'"
    using Cons.IH [OF ls'] Cons.prems(2) by simp
  moreover have "list_all is_alnum (lemmatize tk w p)"
    using lm Cons.prems(2) by simp
  ultimately show ?case by (simp add: ls)
qed

lemma no_tag_without_lt: "CHR ''<'' \<notin> set s \<Longrightarrow> \<not> has_tag s"
  by (induction s) (auto simp: tag_at_def)

lemma clean_chars_no_tag: "list_all clean_char s \<Longrightarrow> \<not> has_tag s"
proof (rule no_tag_without_lt)
  assume "list_all clean_char s"
  moreover have "\<not> clean_char CHR ''<''" by (simp add: clean_char_def is_alnum_def)
  ultimately show "CHR ''<'' \<notin> set s" by (auto simp: list_all_iff)
qed

lemma normalize_text_clean:
  assumes tok: "\<And>s. list_all clean_char s \<Longrightarrow> list_all (list_all is_alnum) (word_tokenize tk s)"
      and st: "\<And>w. list_all is_alnum w \<Longrightarrow> list_all is_alnum (stem tk w)"
      and lm: "\<And>w p. list_all is_alnum w \<Longrightarrow> list_all is_alnum (lemmatize tk w p)"
      and run: "normalize_text tk CONFIG x = Inr t"
  shows "list_all clean_char t"
proof -
  let ?ws = "word_tokenize tk (clean_text x)"
  have toks: "list_all (list_all is_alnum) ?ws"
    using tok [OF clean_text_chars] .
  from run obtain m where m: "CONFIG ''NORMALIZER'' = Some m"
    by (cases "CONFIG ''NORMALIZER''") (auto simp: normalize_text_def)
  show ?thesis
  proof (cases "m = ''stem''")
    case True
    with run m have t: "t = join '' '' (map (stem tk) ?ws)"
      by (simp add: normalize_text_def)
    have "list_all (list_all is_alnum) (map (stem tk) ?ws)"
      using toks st by (auto simp: list_all_iff)
    then show ?thesis unfolding t by (rule join_clean_chars)
  next
    case False
    with run m have l: "m = ''lemma''"
      by (auto simp: normalize_text_def split: if_splits)
    with run m obtain ls where ls: "lemmatize_all tk ?ws = Inr ls" and t: "t = join '' '' ls"
      by (auto simp: normalize_text_def split: sum.splits)
    have "list_all (list_all is_alnum) ls"
      using lemmatize_all_alnum [of tk, OF lm ls toks] .
    then show ?thesis unfolding t by (rule join_clean_chars)
  qed
qed

text \<open>
  Claim C10. Provided the NLTK functions keep alphanumeric text alphanumeric (the
  tokens of a text of alphanumerics and spaces are alphanumeric, and so are the
  stem and the lemma of an alphanumeric token), every string the preprocessor
  returns consists of characters of \<open>[a-zA-Z0-9]\<close> and spaces only, so that
  no markup tag is left in it.
\<close>

theorem preprocessor_output_clean:
  assumes "\<forall>s. list_all clean_char s \<longrightarrow> list_all (list_all is_alnum) (word_tokenize tk s)"
      and "\<forall>w. list_all is_alnum w \<longrightarrow> list_all is_alnum (stem tk w)"
      and "\<forall>w p. list_all is_alnum w \<longrightarrow> list_all is_alnum (lemmatize tk w p)"
      and "preprocessor tk CONFIG corpus = Inr (Lst out)"
  shows "list_all (\<lambda>t. list_all clean_char t \<and> \<not> has_tag t) out"
proof -
  from assms(4) have all: "list_all2 (\<lambda>x t. normalize_text tk CONFIG x = Inr t) (texts_of corpus) out"
    by (simp add: preprocessor_Inr)
  have "list_all clean_char t \<and> \<not> has_tag t" if "t \<in> set out" for t
  proof -
    from that all obtain x where "normalize_text tk CONFIG x = Inr t"
      by (auto simp: list_all2_conv_all_nth in_set_conv_nth)
    then have "list_all clean_char t"
      using normalize_text_clean [of tk CONFIG x t] assms(1-3) by blast
    then show ?thesis using clean_chars_no_tag by blast
  qed
  then show ?thesis by (simp add: list_all_iff)
qed


lemma split_spaces_alnum:
  "list_all clean_char s \<Longrightarrow> list_all is_alnum w \<Longrightarrow>
   list_all (list_all is_alnum) (split_spaces w s)"
  by (induction s arbitrary: w) (auto simp: clean_char_def)

lemma strip_s_alnum: "list_all is_alnum w \<Longrightarrow> list_all is_alnum (strip_s w)"
  by (auto simp: strip_s_def list_all_iff dest: in_set_butlastD)

theorem preprocessor_output_clean_witness:
  "preprocessor toy_nltk stem_config (Str ''<b>Cats</b> & dogs!'') = Inr (Lst [''Cat dog''])
   \<and> list_all (\<lambda>t. list_all clean_char t \<and> \<not> has_tag t) [''Cat dog'']"
proof -
  have h1: "\<forall>s. list_all clean_char s \<longrightarrow>
              list_all (list_all is_alnum) (word_tokenize toy_nltk s)"
    by (simp add: toy_nltk_def split_spaces_alnum)
  have h2: "\<forall>w. list_all is_alnum w \<longrightarrow> list_all is_alnum (stem toy_nltk w)"
    by (simp add: toy_nltk_def strip_s_alnum)
  have h3: "\<forall>w p. list_all is_alnum w \<longrightarrow> list_all is_alnum (lemmatize toy_nltk w p)"
    by (simp add: toy_nltk_def)
  show ?thesis
    using preprocessor_output_clean [OF h1 h2 h3 toy_stem_run] toy_stem_run by simp
qed

subsection \<open>Preprocessing a preprocessed text\<close>

text \<open>
  The three substitutions leave a cleaned text as it is, and the whitespace
  substitution never changes what the one before it produced. What NLTK does
  to its own output is not fixed by the source: with the toolkit of the examples,
  whose stemmer removes one final \<open>s\<close> at a time, a second pass changes the result.
\<close>

lemma sub_runs_settled: "settled P s \<Longrightarrow> sub_runs P '' '' s = s"
proof (induction s)
  case Nil
  show ?case by simp
next
  case (Cons c cs)
  show ?case
  proof (cases "P c")
    case False
    with Cons show ?thesis by simp
  next
    case True
    with Cons.prems have c: "c = CHR '' ''" and hd: "case cs of [] \<Rightarrow> True | d # _ \<Rightarrow> \<not> P d"
      and rest: "settled P cs" by simp_all
    from hd have "dropWhile P cs = cs" by (cases cs) auto
    with True c Cons.IH [OF rest] show ?thesis by simp
  qed
qed

lemma settled_sub_runs: "settled P (sub_runs P '' '' s)"
proof (induction P "'' ''" s rule: sub_runs.induct)
  case (1 P)
  show ?case by simp
next
  case (2 P c cs)
  show ?case
  proof (cases "P c")
    case False
    with 2 show ?thesis by simp
  next
    case True
    have "case sub_runs P '' '' (dropWhile P cs) of [] \<Rightarrow> True | d # _ \<Rightarrow> \<not> P d"
    proof (cases "dropWhile P cs")
      case Nil
      show ?thesis unfolding Nil by simp
    next
      case (Cons d ds)
      have "\<not> P d" using hd_dropWhile [of P cs] Cons by auto
      then show ?thesis unfolding Cons by simp
    qed
    with True 2 show ?thesis by simp
  qed
qed


lemma settled_weaken:
  assumes "\<And>c. Q c \<Longrightarrow> P c"
  shows "settled P s \<Longrightarrow> settled Q s"
proof (induction s)
  case Nil
  show ?case by simp
next
  case (Cons c cs)
  from Cons.prems have a: "P c \<longrightarrow> c = CHR '' '' \<and> (case cs of [] \<Rightarrow> True | d # _ \<Rightarrow> \<not> P d)"
    and b: "settled P cs" by simp_all
  have "Q c \<longrightarrow> c = CHR '' '' \<and> (case cs of [] \<Rightarrow> True | d # _ \<Rightarrow> \<not> Q d)"
    using a assms by (cases cs) auto
  with Cons.IH [OF b] show ?case by simp
qed

lemma space_not_alnum: "is_space c \<Longrightarrow> \<not> is_alnum c"
  unfolding is_space_def is_alnum_def Let_def by arith

lemma sub_tags_no_lt: "CHR ''<'' \<notin> set s \<Longrightarrow> sub_tags s = s"
proof (induction s)
  case Nil
  show ?case by simp
next
  case (Cons c cs)
  then have "c \<noteq> CHR ''<''" and "sub_tags cs = cs" by auto
  then show ?case by simp
qed

lemma clean_text_two_steps:
  "clean_text s = sub_runs (\<lambda>c. \<not> is_alnum c) '' '' (sub_tags s)"
proof -
  let ?y = "sub_runs (\<lambda>c. \<not> is_alnum c) '' '' (sub_tags s)"
  have "settled (\<lambda>c. \<not> is_alnum c) ?y"
    by (rule settled_sub_runs)
  then have "settled is_space ?y"
    by (rule settled_weaken [rotated]) (rule space_not_alnum)
  then show ?thesis by (simp add: clean_text_def sub_runs_settled)
qed

lemma clean_text_idempotent: "clean_text (clean_text s) = clean_text s"
proof -
  let ?y = "sub_runs (\<lambda>c. \<not> is_alnum c) '' '' (sub_tags s)"
  have st: "settled (\<lambda>c. \<not> is_alnum c) ?y"
    by (rule settled_sub_runs)
  have "list_all clean_char (clean_text s)" by (rule clean_text_chars)
  moreover have "\<not> clean_char CHR ''<''" by (simp add: clean_char_def is_alnum_def)
  ultimately have "CHR ''<'' \<notin> set (clean_text s)" by (auto simp: list_all_iff)
  then have "CHR ''<'' \<notin> set ?y" by (simp add: clean_text_two_steps)
  then have "sub_tags ?y = ?y" by (rule sub_tags_no_lt)
  then have "clean_text ?y = ?y"
    using st by (simp add: clean_text_two_steps [of ?y] sub_runs_settled)
  then show ?thesis by (simp add: clean_text_two_steps [of s])
qed

lemma toy_stemmer_twice:
  "preprocessor toy_nltk stem_config (Str ''glass'') = Inr (Lst [''glas''])
   \<and> preprocessor toy_nltk stem_config (Lst [''glas'']) = Inr (Lst [''gla''])"
  by (simp add: preprocessor_def texts_of_def normalize_text_def clean_text_def stem_config_def
      toy_nltk_def strip_s_def is_alnum_def is_space_def)

section \<open>Properties of the experiment tracking\<close>

lemma collect_run_ids_order:
  "collect_run_ids runs acc = Inr ids \<Longrightarrow> ids = acc @ map run_id runs"
  by (induction runs arbitrary: acc) (fastforce split: option.splits)+

lemma collect_run_ids_tagged:
  "list_all (\<lambda>r. tags r ''model_type'' \<noteq> None) runs \<Longrightarrow>
   collect_run_ids runs acc = Inr (acc @ map run_id runs)"
  by (induction runs arbitrary: acc) auto

lemma get_top_runs_forwards_order:
  assumes "search_runs client (str experiment_id) [] ACTIVE_ONLY max_results
             [''metrics.accuracy DESC''] = Inr runs"
      and "list_all (\<lambda>r. tags r ''model_type'' \<noteq> None) runs"
  shows "get_top_runs client experiment_id max_results = Inr (map run_id runs)"
  using assms by (simp add: get_top_runs_def collect_run_ids_tagged)

lemma get_top_runs_toy: "get_top_runs toy_client 1 3 = Inr [''r1'', ''r2'']"
  by (simp add: get_top_runs_def toy_client_def toy_search_def toy_run_def)

text \<open>
  Claim C6. An error of the tracker's \<open>get_run\<close> (an unknown run id) is the
  error of \<open>load_model\<close>; for a known run that carries its \<open>model_type\<close> tag, as
  every run record does, an error of the loader on the run's artifact directory (a
  missing or unreadable artifact) is the error of \<open>load_model\<close>; and a model is
  returned only when the loader returned that very model from the run's
  artifact directory.
\<close>

theorem load_model_surfaces_errors:
  "(get_run client rid = Inl e \<longrightarrow> load_model client rid experiment_id = Inl e)
   \<and> (get_run client rid = Inr r \<and> tags r ''model_type'' \<noteq> None
        \<and> sklearn_load_model client (artifact_path experiment_id rid) = Inl e
      \<longrightarrow> load_model client rid experiment_id = Inl e)
   \<and> (load_model client rid experiment_id = Inr model
      \<longrightarrow> (\<exists>r'. get_run client rid = Inr r')
          \<and> sklearn_load_model client (artifact_path experiment_id rid) = Inr model)"
proof (intro conjI impI)
  assume "get_run client rid = Inl e"
  then show "load_model client rid experiment_id = Inl e"
    by (simp add: load_model_def)
next
  assume a: "get_run client rid = Inr r \<and> tags r ''model_type'' \<noteq> None
        \<and> sklearn_load_model client (artifact_path experiment_id rid) = Inl e"
  then obtain model_type where "tags r ''model_type'' = Some model_type" by auto
  with a show "load_model client rid experiment_id = Inl e"
    by (simp add: load_model_def)
next
  assume ok: "load_model client rid experiment_id = Inr model"
  show "\<exists>r'. get_run client rid = Inr r'"
  proof (cases "get_run client rid")
    case (Inl e')
    with ok show ?thesis by (simp add: load_model_def)
  next
    case (Inr r')
    then show ?thesis by blast
  qed
  show "sklearn_load_model client (artifact_path experiment_id rid) = Inr model"
    using ok by (auto simp: load_model_def split: sum.splits option.splits)
qed

theorem load_model_surfaces_errors_witness:
  "load_model toy_client ''r3'' 1 = Inl (TrackerError ''RESOURCE_DOES_NOT_EXIST'')
   \<and> load_model toy_client ''r2'' 1 = Inl (TrackerError ''No such file or directory'')
   \<and> sklearn_load_model toy_client (artifact_path 1 ''r1'') = Inr ''fitted Naive Bayes''"
proof -
  have p1: "artifact_path 1 ''r1'' = ''mlflow/mlruns/1/r1/artifacts''"
    by (simp add: artifact_path_def str_def digit_def)
  have p2: "artifact_path 1 ''r2'' = ''mlflow/mlruns/1/r2/artifacts''"
    by (simp add: artifact_path_def str_def digit_def)
  have g3: "get_run toy_client ''r3'' = Inl (TrackerError ''RESOURCE_DOES_NOT_EXIST'')"
    by (simp add: toy_client_def toy_get_run_def)
  have g2: "get_run toy_client ''r2'' = Inr (toy_run ''r2'' 20 ''SGDClassifier'' (80 / 100))
            \<and> tags (toy_run ''r2'' 20 ''SGDClassifier'' (80 / 100)) ''model_type'' \<noteq> None
            \<and> sklearn_load_model toy_client (artifact_path 1 ''r2'')
                 = Inl (TrackerError ''No such file or directory'')"
    by (simp add: toy_client_def toy_get_run_def toy_run_def toy_load_def p2)
  have l1: "load_model toy_client ''r1'' 1 = Inr ''fitted Naive Bayes''"
    by (simp add: load_model_def toy_client_def toy_get_run_def toy_run_def toy_load_def p1)
  have w1: "load_model toy_client ''r3'' 1 = Inl (TrackerError ''RESOURCE_DOES_NOT_EXIST'')"
    using load_model_surfaces_errors
            [of toy_client "''r3''" "TrackerError ''RESOURCE_DOES_NOT_EXIST''" 1, THEN conjunct1]
          g3
    by (rule mp)
  have w2: "load_model toy_client ''r2'' 1 = Inl (TrackerError ''No such file or directory'')"
    using load_model_surfaces_errors
            [of toy_client "''r2''" "TrackerError ''No such file or directory''" 1
                "toy_run ''r2'' 20 ''SGDClassifier'' (80 / 100)",
             THEN conjunct2, THEN conjunct1]
          g2
    by (rule mp)
  have w3: "sklearn_load_model toy_client (artifact_path 1 ''r1'') = Inr ''fitted Naive Bayes''"
    using load_model_surfaces_errors
            [of toy_client "''r1''" _ 1 _ "''fitted Naive Bayes''",
             THEN conjunct2, THEN conjunct2]
          l1
    by blast
  show ?thesis using w1 w2 w3 by (intro conjI)
qed

end
